theory Spec2Isabelle
  imports Main "HOL-Library.AList"
begin

section \<open>Data model\<close>

text \<open>
  The module keeps three pieces of process-wide state: the component registry (a WeakMap
  from component to id and a Map from id to component), the zustand store holding the
  \<open>modals\<close> Map, and, for every handle returned by \<open>createModal\<close>, the private
  array \<open>ids\<close> captured by its two closures. All of it is gathered in one record that
  every operation takes and returns.

  A JavaScript \<open>Map\<close> remembers insertion order, and \<open>ModalRenderer\<close> iterates
  \<open>modals.values()\<close>, so a Map object is an association list in insertion order:
  \<open>Map.set\<close> is \<open>AList.update\<close> (replace in place, else append),
  \<open>Map.delete\<close> is \<open>AList.delete\<close>. The registry maps are only read with
  \<open>get\<close> and written with \<open>set\<close>, so they are partial functions.
\<close>

text \<open>\<open>interface ModalState\<close>: the field \<open>id\<close> is called \<open>ident\<close> here;
  \<open>props\<close> is an optional \<open>Record<string, unknown>\<close>.\<close>

record 'v ModalState =
  ident :: string
  componentId :: string
  props :: "(string \<times> 'v) list option"

text \<open>The closure state of one \<open>createModal\<close> call: the bound component and the
  array \<open>ids\<close>.\<close>

record 'c handle =
  component :: 'c
  ids :: "string list"

text \<open>
  The Map objects and the zustand state objects live in two stores addressed by position,
  since the code copies a Map (\<open>new Map(state.modals)\<close>), mutates the copy and swaps
  the reference, and zustand compares state objects by identity. A state object carries
  one data field, the reference \<open>modals\<close> (its other two fields are the constant
  functions \<open>openModal\<close> and \<open>closeModal\<close>).

  \<open>nanoid()\<close> is the external id generator; the sequence of strings it will return is
  a parameter of the world, \<open>nanoid_calls\<close> counts the calls made so far.
  \<open>notifications\<close> logs every round of zustand listener calls as the pair
  (state, previousState); \<open>console\<close> collects the \<open>console.warn\<close> messages.
\<close>

record ('c, 'v) world =
  componentRegistry :: "'c \<rightharpoonup> string"
  componentIdMap :: "string \<rightharpoonup> 'c"
  map_heap :: "(string \<times> 'v ModalState) list list"
  state_heap :: "nat list"
  state :: nat
  notifications :: "(nat \<times> nat) list"
  handles :: "'c handle list"
  nanoid_seq :: "nat \<Rightarrow> string"
  nanoid_calls :: nat
  console :: "string list"

text \<open>The props a rendered element receives: the injected \<open>id\<close>, the injected
  \<open>close\<close> closure (a state transformer), or a value supplied by the caller.\<close>

datatype ('c, 'v) prop_value =
  Id_prop string
  | Close_prop "('c, 'v) world \<Rightarrow> ('c, 'v) world"
  | User_prop 'v

record ('c, 'v) element =
  el_type :: 'c
  el_key :: string
  el_props :: "(string \<times> ('c, 'v) prop_value) list"

section \<open>The store\<close>

text \<open>\<open>getState().modals\<close>: the reference held by the current state object, and the
  entries of the Map it points to.\<close>

definition modals :: "('c, 'v) world \<Rightarrow> nat" where
  "modals s = state_heap s ! state s"

definition entries :: "('c, 'v) world \<Rightarrow> (string \<times> 'v ModalState) list" where
  "entries s = map_heap s ! modals s"

text \<open>The module right after loading: \<open>create\<close> has built the initial state object
  with an empty Map.\<close>

definition init_world :: "(nat \<Rightarrow> string) \<Rightarrow> ('c, 'v) world" where
  "init_world gen =
     \<lparr>componentRegistry = Map.empty, componentIdMap = Map.empty,
      map_heap = [[]], state_heap = [0], state = 0, notifications = [],
      handles = [], nanoid_seq = gen, nanoid_calls = 0, console = []\<rparr>"

text \<open>References never dangle in JavaScript: the current state object and the Map it
  refers to exist.\<close>

definition wf_world :: "('c, 'v) world \<Rightarrow> bool" where
  "wf_world s \<longleftrightarrow> state s < length (state_heap s) \<and> modals s < length (map_heap s)"

definition nanoid :: "('c, 'v) world \<Rightarrow> string \<times> ('c, 'v) world" where
  "nanoid s = (nanoid_seq s (nanoid_calls s), s\<lparr>nanoid_calls := Suc (nanoid_calls s)\<rparr>)"

text \<open>JavaScript truthiness of a \<open>string | undefined\<close>: \<open>undefined\<close> and the empty
  string are falsy.\<close>

fun truthy :: "string option \<Rightarrow> bool" where
  "truthy None = False"
| "truthy (Some x) = (x \<noteq> [])"

definition registerComponent :: "'c \<Rightarrow> ('c, 'v) world \<Rightarrow> string \<times> ('c, 'v) world" where
  "registerComponent c s =
     (let componentId = componentRegistry s c in
      if \<not> truthy componentId then
        (let (i, s1) = nanoid s in
         (i, s1\<lparr>componentRegistry := (componentRegistry s1)(c \<mapsto> i),
                componentIdMap := (componentIdMap s1)(i \<mapsto> c)\<rparr>))
      else (the componentId, s))"

text \<open>\<open>new Map(iterable)\<close>, \<open>map.set(k, v)\<close> and \<open>map.delete(k)\<close> on the Map
  store; an object literal for a state.\<close>

definition Map_new ::
  "(string \<times> 'v ModalState) list \<Rightarrow> ('c, 'v) world \<Rightarrow> nat \<times> ('c, 'v) world" where
  "Map_new es s = (length (map_heap s), s\<lparr>map_heap := map_heap s @ [es]\<rparr>)"

definition Map_set ::
  "nat \<Rightarrow> string \<Rightarrow> 'v ModalState \<Rightarrow> ('c, 'v) world \<Rightarrow> ('c, 'v) world" where
  "Map_set r k v s = s\<lparr>map_heap := (map_heap s)[r := AList.update k v (map_heap s ! r)]\<rparr>"

definition Map_delete :: "nat \<Rightarrow> string \<Rightarrow> ('c, 'v) world \<Rightarrow> ('c, 'v) world" where
  "Map_delete r k s = s\<lparr>map_heap := (map_heap s)[r := AList.delete k (map_heap s ! r)]\<rparr>"

definition new_state :: "nat \<Rightarrow> ('c, 'v) world \<Rightarrow> nat \<times> ('c, 'v) world" where
  "new_state m s = (length (state_heap s), s\<lparr>state_heap := state_heap s @ [m]\<rparr>)"

text \<open>
  zustand's \<open>setState(partial)\<close>: the next state is \<open>partial(state)\<close> (or
  \<open>partial\<close> itself when it is an object); unless it is the very same object as the
  current state, the store installs \<open>Object.assign({}, state, nextState)\<close> and calls
  every listener with the new and the previous state. All partial states built in this
  module carry a \<open>modals\<close> field, which the merge takes over.
\<close>

definition setState ::
  "(nat \<Rightarrow> ('c, 'v) world \<Rightarrow> nat \<times> ('c, 'v) world) \<Rightarrow> ('c, 'v) world \<Rightarrow> ('c, 'v) world" where
  "setState partial s =
     (let (nextState, s1) = partial (state s) s in
      if nextState \<noteq> state s1 then
        (let previousState = state s1;
             (merged, s2) = new_state (state_heap s1 ! nextState) s1
         in s2\<lparr>state := merged,
                notifications := notifications s2 @ [(merged, previousState)]\<rparr>)
      else s1)"

definition openModal ::
  "string \<Rightarrow> 'c \<Rightarrow> (string \<times> 'v) list option \<Rightarrow> ('c, 'v) world \<Rightarrow> ('c, 'v) world" where
  "openModal i c p s =
     (let (cid, s1) = registerComponent c s in
      setState (\<lambda>st w.
        let (newModals, w1) = Map_new (map_heap w ! (state_heap w ! st)) w;
            w2 = Map_set newModals i \<lparr>ident = i, componentId = cid, props = p\<rparr> w1
        in new_state newModals w2) s1)"

definition closeModal :: "string \<Rightarrow> ('c, 'v) world \<Rightarrow> ('c, 'v) world" where
  "closeModal i s =
     setState (\<lambda>st w.
        let (newModals, w1) = Map_new (map_heap w ! (state_heap w ! st)) w;
            w2 = Map_delete newModals i w1
        in new_state newModals w2) s"

section \<open>Handles\<close>

text \<open>\<open>createModal\<close> allocates the array \<open>ids\<close> and returns the handle, here its
  position in the handle table. \<open>handle_open\<close> and \<open>handle_close\<close> are the methods
  \<open>open\<close> and \<open>close\<close> of the returned object; \<open>ids.push\<close> appends,
  \<open>ids.pop\<close> takes the last element and yields \<open>undefined\<close> on the empty array.\<close>

definition createModal :: "'c \<Rightarrow> ('c, 'v) world \<Rightarrow> nat \<times> ('c, 'v) world" where
  "createModal c s =
     (length (handles s), s\<lparr>handles := handles s @ [\<lparr>component = c, ids = []\<rparr>]\<rparr>)"

definition handle_open ::
  "nat \<Rightarrow> (string \<times> 'v) list option \<Rightarrow> ('c, 'v) world \<Rightarrow> string \<times> ('c, 'v) world" where
  "handle_open h p s =
     (let (i, s1) = nanoid s;
          hd1 = handles s1 ! h;
          s2 = s1\<lparr>handles := (handles s1)[h := hd1\<lparr>ids := ids hd1 @ [i]\<rparr>]\<rparr>
      in (i, openModal i (component hd1) p s2))"

definition handle_close :: "nat \<Rightarrow> ('c, 'v) world \<Rightarrow> ('c, 'v) world" where
  "handle_close h s =
     (let hd1 = handles s ! h;
          i = (if ids hd1 = [] then None else Some (last (ids hd1)));
          s1 = s\<lparr>handles := (handles s)[h := hd1\<lparr>ids := butlast (ids hd1)\<rparr>]\<rparr>
      in if truthy i then closeModal (the i) s1 else s1)"

section \<open>Rendering and the provider\<close>

text \<open>The JSX attributes \<open>id\<close>, \<open>close\<close> followed by the spread
  \<open>{...modal.props}\<close>: a spread property replaces an earlier attribute of the same
  name; spreading \<open>undefined\<close> adds nothing.\<close>

definition spread ::
  "(string \<times> 'v) list option \<Rightarrow> (string \<times> ('c, 'v) prop_value) list
     \<Rightarrow> (string \<times> ('c, 'v) prop_value) list" where
  "spread p base =
     (case p of None \<Rightarrow> base
      | Some kvs \<Rightarrow> foldl (\<lambda>acc (k, v). AList.update k (User_prop v) acc) base kvs)"

definition warning :: "string \<Rightarrow> string" where
  "warning cid = ''Modal component with ID '' @ cid @ '' not found''"

text \<open>The JSX expression \<open><Component key={modal.id} id={modal.id} close={() =>
  useModalStore.getState().closeModal(modal.id)} {...modal.props} />\<close>.\<close>

definition modal_element :: "'c \<Rightarrow> 'v ModalState \<Rightarrow> ('c, 'v) element" where
  "modal_element C m =
     \<lparr>el_type = C, el_key = ident m,
      el_props = spread (props m)
        [(''id'', Id_prop (ident m)),
         (''close'', Close_prop (\<lambda>w. closeModal (ident m) w))]\<rparr>"

text \<open>The callback of \<open>.map\<close> in \<open>ModalRenderer\<close>, and the pass over
  \<open>Array.from(modals.values())\<close>.\<close>

definition render_modal ::
  "'v ModalState \<Rightarrow> ('c, 'v) world \<Rightarrow> ('c, 'v) element option \<times> ('c, 'v) world" where
  "render_modal m s =
     (case componentIdMap s (componentId m) of
        None \<Rightarrow> (None, s\<lparr>console := console s @ [warning (componentId m)]\<rparr>)
      | Some C \<Rightarrow> (Some (modal_element C m), s))"

fun render_all ::
  "'v ModalState list \<Rightarrow> ('c, 'v) world \<Rightarrow> ('c, 'v) element option list \<times> ('c, 'v) world" where
  "render_all [] s = ([], s)"
| "render_all (m # ms) s =
     (let (e, s1) = render_modal m s; (es, s2) = render_all ms s1 in (e # es, s2))"

definition ModalRenderer ::
  "('c, 'v) world \<Rightarrow> ('c, 'v) element option list \<times> ('c, 'v) world" where
  "ModalRenderer s = render_all (map snd (entries s)) s"

text \<open>The cleanup of the effect in \<open>ModalProvider\<close>, run when the provider unmounts:
  \<open>useModalStore.setState({ modals: new Map() })\<close>.\<close>

definition ModalProvider_unmount :: "('c, 'v) world \<Rightarrow> ('c, 'v) world" where
  "ModalProvider_unmount s =
     setState (\<lambda>st w. let (m, w1) = Map_new [] w in new_state m w1) s"

section \<open>Runs of the module\<close>

text \<open>
  What a client can do with the module, one call at a time. A handle exists only once
  \<open>createModal\<close> has returned it, so a call on a position beyond the handle table does
  nothing. The injected \<open>close\<close> of a rendered instance is \<open>closeModal\<close> on its
  id, hence a \<open>Store_close\<close>. Next to the world a run keeps a history: which handle's
  \<open>open\<close> returned which id.
\<close>

datatype ('c, 'v) action =
  Create 'c
  | Open nat "(string \<times> 'v) list option"
  | Close nat
  | Store_open string 'c "(string \<times> 'v) list option"
  | Store_close string
  | Render
  | Unmount

fun step ::
  "('c, 'v) action \<Rightarrow> ('c, 'v) world \<times> (nat \<times> string) list
     \<Rightarrow> ('c, 'v) world \<times> (nat \<times> string) list" where
  "step (Create c) (s, l) = (snd (createModal c s), l)"
| "step (Open h p) (s, l) =
     (if h < length (handles s)
      then (snd (handle_open h p s), l @ [(h, fst (handle_open h p s))]) else (s, l))"
| "step (Close h) (s, l) = (if h < length (handles s) then (handle_close h s, l) else (s, l))"
| "step (Store_open i c p) (s, l) = (openModal i c p s, l)"
| "step (Store_close i) (s, l) = (closeModal i s, l)"
| "step Render (s, l) = (snd (ModalRenderer s), l)"
| "step Unmount (s, l) = (ModalProvider_unmount s, l)"

definition run ::
  "('c, 'v) action list \<Rightarrow> (nat \<Rightarrow> string) \<Rightarrow> ('c, 'v) world \<times> (nat \<times> string) list" where
  "run acts gen = foldl (\<lambda>x a. step a x) (init_world gen, []) acts"

section \<open>Predicates and auxiliary notions\<close>

text \<open>The two registry maps agree: every registered component has a non-empty id that
  resolves back to it, and every id resolves to a component registered under that id.\<close>

definition registry_consistent :: "('c, 'v) world \<Rightarrow> bool" where
  "registry_consistent s \<longleftrightarrow>
     (\<forall>c i. componentRegistry s c = Some i \<longrightarrow> i \<noteq> [] \<and> componentIdMap s i = Some c) \<and>
     (\<forall>i c. componentIdMap s i = Some c \<longrightarrow> componentRegistry s c = Some i)"

text \<open>The keys of a Map object.\<close>

definition keys :: "(string \<times> 'a) list \<Rightarrow> string set" where
  "keys al = fst ` set al"

text \<open>The world after one \<open>setState\<close> whose partial state holds a freshly built Map
  with entries \<open>es\<close>: one new Map object, the partial state object and the merged state
  object, the merged one current, and one round of listener calls.\<close>

definition install :: "(string \<times> 'v ModalState) list \<Rightarrow> ('c, 'v) world \<Rightarrow> ('c, 'v) world" where
  "install es s =
     s\<lparr>map_heap := map_heap s @ [es],
       state_heap := state_heap s @ [length (map_heap s), length (map_heap s)],
       state := Suc (length (state_heap s)),
       notifications := notifications s @ [(Suc (length (state_heap s)), state s)]\<rparr>"

text \<open>The first half of a handle's \<open>open\<close>, up to the call of \<open>openModal\<close>:
  one id drawn from \<open>nanoid\<close> and pushed on the handle's array. The first half of its
  \<open>close\<close>: the array popped.\<close>

definition pushed :: "nat \<Rightarrow> ('c, 'v) world \<Rightarrow> ('c, 'v) world" where
  "pushed h s =
     s\<lparr>nanoid_calls := Suc (nanoid_calls s),
       handles := (handles s)[h := (handles s ! h)
          \<lparr>ids := ids (handles s ! h) @ [nanoid_seq s (nanoid_calls s)]\<rparr>]\<rparr>"

definition popped :: "nat \<Rightarrow> ('c, 'v) world \<Rightarrow> ('c, 'v) world" where
  "popped h s =
     s\<lparr>handles := (handles s)[h := (handles s ! h)\<lparr>ids := butlast (ids (handles s ! h))\<rparr>]\<rparr>"

text \<open>
  Concrete inputs. \<open>example_ids\<close> is an id generator with pairwise distinct, non-empty
  results. In \<open>example_world\<close> component 7 is registered under the id \<open>n\<close>, two
  handles have been created from it, and the store holds one instance \<open>u\<close> opened
  through \<open>openModal\<close>. \<open>broken_world\<close> is the store after a client has put an
  instance with an unregistered component id between two proper ones by calling zustand's
  \<open>setState\<close> directly.
\<close>

definition example_ids :: "nat \<Rightarrow> string" where
  "example_ids n = replicate (Suc n) CHR ''n''"

definition example_world :: "(nat, nat) world" where
  "example_world =
     \<lparr>componentRegistry = [7 \<mapsto> ''n''], componentIdMap = [''n'' \<mapsto> 7],
      map_heap = [[], [(''u'', \<lparr>ident = ''u'', componentId = ''n'',
                                props = Some [(''title'', 1)]\<rparr>)]],
      state_heap = [0, 1, 1], state = 2, notifications = [(2, 0)],
      handles = [\<lparr>component = 7, ids = []\<rparr>, \<lparr>component = 7, ids = []\<rparr>],
      nanoid_seq = example_ids, nanoid_calls = Suc 0, console = []\<rparr>"


text \<open>What a run maintains when \<open>nanoid\<close> never repeats an id: every id on a
  handle's stack was returned by an \<open>open\<close> of that handle, every id in the history
  was drawn from \<open>nanoid\<close> earlier, and no id was returned to two handles.\<close>

definition run_inv :: "(nat \<Rightarrow> string) \<Rightarrow> ('c, 'v) world \<times> (nat \<times> string) list \<Rightarrow> bool" where
  "run_inv gen x \<longleftrightarrow>
     wf_world (fst x) \<and> nanoid_seq (fst x) = gen \<and>
     (\<forall>h < length (handles (fst x)). \<forall>i \<in> set (ids (handles (fst x) ! h)). (h, i) \<in> set (snd x)) \<and>
     (\<forall>(h, i) \<in> set (snd x). \<exists>n < nanoid_calls (fst x). i = gen n) \<and>
     (\<forall>h h' i. (h, i) \<in> set (snd x) \<longrightarrow> (h', i) \<in> set (snd x) \<longrightarrow> h = h')"

section \<open>Basic facts\<close>

lemma closeModal_install:
  "wf_world s \<Longrightarrow> closeModal i s = install (AList.delete i (entries s)) s"
  by (simp add: closeModal_def setState_def Map_new_def Map_delete_def new_state_def
      wf_world_def entries_def modals_def Let_def nth_append install_def)

lemma set_install:
  "wf_world s \<Longrightarrow>
   setState (\<lambda>st w.
        let (newModals, w1) = Map_new (map_heap w ! (state_heap w ! st)) w;
            w2 = Map_set newModals i m w1
        in new_state newModals w2) s = install (AList.update i m (entries s)) s"
  by (simp add: setState_def Map_new_def Map_set_def new_state_def
      wf_world_def entries_def modals_def Let_def nth_append install_def)

lemma unmount_install:
  "wf_world s \<Longrightarrow> ModalProvider_unmount s = install [] s"
  by (simp add: ModalProvider_unmount_def setState_def Map_new_def new_state_def
      wf_world_def entries_def modals_def Let_def nth_append install_def)

lemma install_simps [simp]:
  "entries (install es s) = es"
  "modals (install es s) = length (map_heap s)"
  "map_heap (install es s) = map_heap s @ [es]"
  "state (install es s) = Suc (length (state_heap s))"
  "notifications (install es s) = notifications s @ [(Suc (length (state_heap s)), state s)]"
  "handles (install es s) = handles s"
  "componentRegistry (install es s) = componentRegistry s"
  "componentIdMap (install es s) = componentIdMap s"
  "nanoid_seq (install es s) = nanoid_seq s"
  "nanoid_calls (install es s) = nanoid_calls s"
  "console (install es s) = console s"
  "wf_world (install es s)"
  by (simp_all add: install_def entries_def modals_def wf_world_def nth_append)

lemma register_frame [simp]:
  "map_heap (snd (registerComponent c s)) = map_heap s"
  "state_heap (snd (registerComponent c s)) = state_heap s"
  "state (snd (registerComponent c s)) = state s"
  "notifications (snd (registerComponent c s)) = notifications s"
  "handles (snd (registerComponent c s)) = handles s"
  "nanoid_seq (snd (registerComponent c s)) = nanoid_seq s"
  "console (snd (registerComponent c s)) = console s"
  "entries (snd (registerComponent c s)) = entries s"
  "modals (snd (registerComponent c s)) = modals s"
  "wf_world (snd (registerComponent c s)) = wf_world s"
  by (simp_all add: registerComponent_def nanoid_def Let_def entries_def modals_def wf_world_def
      split: prod.split)

lemma register_calls: "nanoid_calls s \<le> nanoid_calls (snd (registerComponent c s))"
  by (simp add: registerComponent_def nanoid_def Let_def)

lemma openModal_install:
  "wf_world s \<Longrightarrow>
   openModal i c p s =
     install (AList.update i
                \<lparr>ident = i, componentId = fst (registerComponent c s), props = p\<rparr> (entries s))
       (snd (registerComponent c s))"
  using set_install [of "snd (registerComponent c s)" i
      "\<lparr>ident = i, componentId = fst (registerComponent c s), props = p\<rparr>"]
  by (simp add: openModal_def split_beta Let_def)

lemma update_fresh: "k \<notin> fst ` set al \<Longrightarrow> AList.update k v al = al @ [(k, v)]"
  by (induction al) auto

lemma handle_close_empty: "ids (handles s ! h) = [] \<Longrightarrow> handle_close h s = s"
proof -
  assume e: "ids (handles s ! h) = []"
  have "(handles s ! h)\<lparr>ids := []\<rparr> = handles s ! h"
    using e [symmetric] by simp
  then have "(handles s)[h := (handles s ! h)\<lparr>ids := []\<rparr>] = handles s"
    by (simp only: list_update_id)
  then have "s\<lparr>handles := (handles s)[h := (handles s ! h)\<lparr>ids := butlast []\<rparr>]\<rparr> = s"
    by simp
  then show ?thesis
    unfolding handle_close_def Let_def using e by simp
qed

lemma wf_init: "wf_world (init_world gen)"
  by (simp add: wf_world_def init_world_def modals_def)

lemma pushed_simps [simp]:
  "entries (pushed h s) = entries s"
  "wf_world (pushed h s) = wf_world s"
  "map_heap (pushed h s) = map_heap s"
  "state (pushed h s) = state s"
  "state_heap (pushed h s) = state_heap s"
  "modals (pushed h s) = modals s"
  "nanoid_seq (pushed h s) = nanoid_seq s"
  "nanoid_calls (pushed h s) = Suc (nanoid_calls s)"
  "componentRegistry (pushed h s) = componentRegistry s"
  "componentIdMap (pushed h s) = componentIdMap s"
  "console (pushed h s) = console s"
  "notifications (pushed h s) = notifications s"
  "handles (pushed h s) = (handles s)[h := (handles s ! h)
          \<lparr>ids := ids (handles s ! h) @ [nanoid_seq s (nanoid_calls s)]\<rparr>]"
  by (simp_all add: pushed_def entries_def modals_def wf_world_def)

lemma popped_simps [simp]:
  "entries (popped h s) = entries s"
  "wf_world (popped h s) = wf_world s"
  "map_heap (popped h s) = map_heap s"
  "state (popped h s) = state s"
  "state_heap (popped h s) = state_heap s"
  "modals (popped h s) = modals s"
  "nanoid_seq (popped h s) = nanoid_seq s"
  "nanoid_calls (popped h s) = nanoid_calls s"
  "componentRegistry (popped h s) = componentRegistry s"
  "componentIdMap (popped h s) = componentIdMap s"
  "console (popped h s) = console s"
  "notifications (popped h s) = notifications s"
  "handles (popped h s) =
     (handles s)[h := (handles s ! h)\<lparr>ids := butlast (ids (handles s ! h))\<rparr>]"
  by (simp_all add: popped_def entries_def modals_def wf_world_def)

lemma handle_open_fst [simp]: "fst (handle_open h p s) = nanoid_seq s (nanoid_calls s)"
  by (simp add: handle_open_def nanoid_def Let_def)

lemma handle_open_snd:
  "snd (handle_open h p s) =
     openModal (nanoid_seq s (nanoid_calls s)) (component (handles s ! h)) p (pushed h s)"
  by (simp add: handle_open_def nanoid_def Let_def pushed_def)

lemma handle_open_entries:
  assumes "wf_world s"
  shows "entries (snd (handle_open h p s)) =
     AList.update (nanoid_seq s (nanoid_calls s))
       \<lparr>ident = nanoid_seq s (nanoid_calls s),
        componentId = fst (registerComponent (component (handles s ! h)) (pushed h s)),
        props = p\<rparr> (entries s)"
  using assms by (simp add: handle_open_snd openModal_install)

lemma handle_open_handles:
  assumes "wf_world s"
  shows "handles (snd (handle_open h p s)) =
     (handles s)[h := (handles s ! h)
        \<lparr>ids := ids (handles s ! h) @ [nanoid_seq s (nanoid_calls s)]\<rparr>]"
  using assms by (simp add: handle_open_snd openModal_install)

lemma handle_open_wf: "wf_world s \<Longrightarrow> wf_world (snd (handle_open h p s))"
  by (simp add: handle_open_snd openModal_install)

lemma handle_close_eq:
  "handle_close h s =
     (if ids (handles s ! h) \<noteq> [] \<and> last (ids (handles s ! h)) \<noteq> []
      then closeModal (last (ids (handles s ! h))) (popped h s) else popped h s)"
  by (simp add: handle_close_def Let_def popped_def)

lemma handle_close_entries:
  assumes "wf_world s"
  shows "entries (handle_close h s) =
     (if ids (handles s ! h) \<noteq> [] \<and> last (ids (handles s ! h)) \<noteq> []
      then AList.delete (last (ids (handles s ! h))) (entries s) else entries s)"
  using assms by (simp add: handle_close_eq closeModal_install)

lemma handle_close_handles:
  assumes "wf_world s"
  shows "handles (handle_close h s) =
     (handles s)[h := (handles s ! h)\<lparr>ids := butlast (ids (handles s ! h))\<rparr>]"
  using assms by (simp add: handle_close_eq closeModal_install)

lemma handle_close_wf: "wf_world s \<Longrightarrow> wf_world (handle_close h s)"
  by (simp add: handle_close_eq closeModal_install)

lemma delete_snoc_fresh: "k \<notin> fst ` set al \<Longrightarrow> AList.delete k (al @ [(k, v)]) = al"
  by (induction al) auto

lemma example_world_facts:
  "wf_world example_world"
  "entries example_world =
     [(''u'', \<lparr>ident = ''u'', componentId = ''n'', props = Some [(''title'', 1)]\<rparr>)]"
  "length (handles example_world) = 2"
  "handles example_world ! 0 = \<lparr>component = 7, ids = []\<rparr>"
  "handles example_world ! Suc 0 = \<lparr>component = 7, ids = []\<rparr>"
  "nanoid_seq example_world (nanoid_calls example_world) = ''nn''"
  "nanoid_calls example_world = Suc 0"
  "nanoid_seq example_world = example_ids"
  "componentRegistry example_world 7 = Some ''n''"
  "componentIdMap example_world ''n'' = Some 7"
  "map_heap example_world ! 0 = []"
  "length (map_heap example_world) = 2"
  "modals example_world = 1"
  "state example_world = 2"
  "length (state_heap example_world) = 3"
  "console example_world = []"
  "example_ids 0 = ''n''"
  "example_ids (Suc 0) = ''nn''"
  "example_ids (Suc (Suc 0)) = ''nnn''"
  "example_ids (Suc (Suc (Suc 0))) = ''nnnn''"
  by (simp_all add: example_world_def example_ids_def wf_world_def modals_def entries_def)

lemma example_world_reachable:
  "fst (run [Create 7, Create 7, Store_open ''u'' 7 (Some [(''title'', 1)])] example_ids)
     = example_world"
  by (simp add: run_def createModal_def init_world_def nanoid_def openModal_def
      registerComponent_def setState_def Map_new_def Map_set_def new_state_def Let_def
      example_world_def example_ids_def)

lemma two_opened:
  "wf_world (snd (handle_open 0 None (snd (handle_open 0 None example_world))))"
  "handles (snd (handle_open 0 None (snd (handle_open 0 None example_world)))) ! 0
     = \<lparr>component = 7, ids = [''nn'', ''nnn'']\<rparr>"
  "entries (snd (handle_open 0 None (snd (handle_open 0 None example_world))))
     = [(''u'', \<lparr>ident = ''u'', componentId = ''n'', props = Some [(''title'', 1)]\<rparr>),
        (''nn'', \<lparr>ident = ''nn'', componentId = ''n'', props = None\<rparr>),
        (''nnn'', \<lparr>ident = ''nnn'', componentId = ''n'', props = None\<rparr>)]"
  "length (handles (snd (handle_open 0 None (snd (handle_open 0 None example_world))))) = 2"
proof -
  let ?s1 = "snd (handle_open 0 None example_world)"
  have w1: "wf_world ?s1" by (simp add: handle_open_wf example_world_facts)
  have r1: "registerComponent 7 (pushed 0 example_world) = (''n'', pushed 0 example_world)"
    by (simp add: registerComponent_def example_world_facts)
  have e1: "entries ?s1 = [(''u'', \<lparr>ident = ''u'', componentId = ''n'', props = Some [(''title'', 1)]\<rparr>),
        (''nn'', \<lparr>ident = ''nn'', componentId = ''n'', props = None\<rparr>)]"
    by (simp add: handle_open_entries example_world_facts r1)
  have h1: "handles ?s1 = [\<lparr>component = 7, ids = [''nn'']\<rparr>, \<lparr>component = 7, ids = []\<rparr>]"
    by (simp add: handle_open_handles example_world_facts) (simp add: example_world_def)
  have n1: "nanoid_calls ?s1 = Suc (Suc 0)" "nanoid_seq ?s1 = example_ids"
    "componentRegistry ?s1 7 = Some ''n''"
    by (simp_all add: handle_open_snd openModal_install example_world_facts r1)
  have r2: "registerComponent 7 (pushed 0 ?s1) = (''n'', pushed 0 ?s1)"
    by (simp add: registerComponent_def n1)
  show "wf_world (snd (handle_open 0 None ?s1))" using w1 by (rule handle_open_wf)
  show "handles (snd (handle_open 0 None ?s1)) ! 0 = \<lparr>component = 7, ids = [''nn'', ''nnn'']\<rparr>"
    using w1 by (simp add: handle_open_handles h1 n1 example_world_facts)
  show "entries (snd (handle_open 0 None ?s1))
     = [(''u'', \<lparr>ident = ''u'', componentId = ''n'', props = Some [(''title'', 1)]\<rparr>),
        (''nn'', \<lparr>ident = ''nn'', componentId = ''n'', props = None\<rparr>),
        (''nnn'', \<lparr>ident = ''nnn'', componentId = ''n'', props = None\<rparr>)]"
    using w1 by (simp add: handle_open_entries e1 n1 h1 r2 example_world_facts)
  show "length (handles (snd (handle_open 0 None ?s1))) = 2"
    using w1 by (simp add: handle_open_handles h1)
qed

lemma register_known:
  "componentRegistry s c = Some i \<Longrightarrow> i \<noteq> [] \<Longrightarrow> registerComponent c s = (i, s)"
  by (simp add: registerComponent_def)

lemma register_new:
  "componentRegistry s c = None \<Longrightarrow>
   registerComponent c s =
     (nanoid_seq s (nanoid_calls s),
      s\<lparr>nanoid_calls := Suc (nanoid_calls s),
        componentRegistry := (componentRegistry s)(c \<mapsto> nanoid_seq s (nanoid_calls s)),
        componentIdMap := (componentIdMap s)(nanoid_seq s (nanoid_calls s) \<mapsto> c)\<rparr>)"
  by (simp add: registerComponent_def nanoid_def)

lemma consistent_extend:
  assumes "registry_consistent s" and "componentRegistry s c = None"
    and "n \<noteq> []" and "componentIdMap s n = None"
  shows "registry_consistent
     (s\<lparr>nanoid_calls := k,
        componentRegistry := (componentRegistry s)(c \<mapsto> n),
        componentIdMap := (componentIdMap s)(n \<mapsto> c)\<rparr>)"
proof -
  have a: "\<And>c' i. componentRegistry s c' = Some i \<Longrightarrow> i \<noteq> [] \<and> componentIdMap s i = Some c'"
    and b: "\<And>i c'. componentIdMap s i = Some c' \<Longrightarrow> componentRegistry s c' = Some i"
    using assms(1) unfolding registry_consistent_def by blast+
  show ?thesis
    unfolding registry_consistent_def
  proof (intro conjI allI impI)
    fix c' i
    assume h: "componentRegistry (s\<lparr>nanoid_calls := k,
        componentRegistry := (componentRegistry s)(c \<mapsto> n),
        componentIdMap := (componentIdMap s)(n \<mapsto> c)\<rparr>) c' = Some i"
    show "i \<noteq> []"
      using h a assms(3) by (cases "c' = c") simp_all
    show "componentIdMap (s\<lparr>nanoid_calls := k,
        componentRegistry := (componentRegistry s)(c \<mapsto> n),
        componentIdMap := (componentIdMap s)(n \<mapsto> c)\<rparr>) i = Some c'"
    proof (cases "c' = c")
      case True
      then show ?thesis using h by simp
    next
      case False
      then have r: "componentRegistry s c' = Some i" using h by simp
      then have "componentIdMap s i = Some c'" using a by blast
      moreover have "i \<noteq> n" using calculation assms(4) by auto
      ultimately show ?thesis by simp
    qed
  next
    fix i c'
    assume h: "componentIdMap (s\<lparr>nanoid_calls := k,
        componentRegistry := (componentRegistry s)(c \<mapsto> n),
        componentIdMap := (componentIdMap s)(n \<mapsto> c)\<rparr>) i = Some c'"
    show "componentRegistry (s\<lparr>nanoid_calls := k,
        componentRegistry := (componentRegistry s)(c \<mapsto> n),
        componentIdMap := (componentIdMap s)(n \<mapsto> c)\<rparr>) c' = Some i"
    proof (cases "i = n")
      case True
      then show ?thesis using h by simp
    next
      case False
      then have "componentIdMap s i = Some c'" using h by simp
      then have r: "componentRegistry s c' = Some i" using b by blast
      then have "c' \<noteq> c" using assms(2) by auto
      then show ?thesis using r by simp
    qed
  qed
qed

lemma render_all_eq:
  "render_all ms s =
     (map (\<lambda>m. map_option (\<lambda>C. modal_element C m) (componentIdMap s (componentId m))) ms,
      s\<lparr>console := console s @ map (\<lambda>m. warning (componentId m))
          (filter (\<lambda>m. componentIdMap s (componentId m) = None) ms)\<rparr>)"
proof (induction ms arbitrary: s)
  case Nil
  show ?case by simp
next
  case (Cons m ms)
  show ?case
  proof (cases "componentIdMap s (componentId m)")
    case None
    then show ?thesis
      by (simp add: render_modal_def Cons.IH)
  next
    case (Some C)
    then show ?thesis
      by (simp add: render_modal_def Cons.IH)
  qed
qed




lemma both_opened:
  "wf_world (snd (handle_open (Suc 0) None (snd (handle_open 0 None example_world))))"
  "handles (snd (handle_open (Suc 0) None (snd (handle_open 0 None example_world))))
     = [\<lparr>component = 7, ids = [''nn'']\<rparr>, \<lparr>component = 7, ids = [''nnn'']\<rparr>]"
  "entries (snd (handle_open (Suc 0) None (snd (handle_open 0 None example_world))))
     = [(''u'', \<lparr>ident = ''u'', componentId = ''n'', props = Some [(''title'', 1)]\<rparr>),
        (''nn'', \<lparr>ident = ''nn'', componentId = ''n'', props = None\<rparr>),
        (''nnn'', \<lparr>ident = ''nnn'', componentId = ''n'', props = None\<rparr>)]"
  "componentIdMap (snd (handle_open (Suc 0) None (snd (handle_open 0 None example_world)))) ''n''
     = Some 7"
proof -
  let ?s1 = "snd (handle_open 0 None example_world)"
  have w1: "wf_world ?s1" by (simp add: handle_open_wf example_world_facts)
  have r1: "registerComponent 7 (pushed 0 example_world) = (''n'', pushed 0 example_world)"
    by (simp add: registerComponent_def example_world_facts)
  have e1: "entries ?s1 = [(''u'', \<lparr>ident = ''u'', componentId = ''n'', props = Some [(''title'', 1)]\<rparr>),
        (''nn'', \<lparr>ident = ''nn'', componentId = ''n'', props = None\<rparr>)]"
    by (simp add: handle_open_entries example_world_facts r1)
  have h1: "handles ?s1 = [\<lparr>component = 7, ids = [''nn'']\<rparr>, \<lparr>component = 7, ids = []\<rparr>]"
    by (simp add: handle_open_handles example_world_facts) (simp add: example_world_def)
  have n1: "nanoid_calls ?s1 = Suc (Suc 0)" "nanoid_seq ?s1 = example_ids"
    "componentRegistry ?s1 7 = Some ''n''" "componentIdMap ?s1 ''n'' = Some 7"
    by (simp_all add: handle_open_snd openModal_install example_world_facts r1)
  have r2: "registerComponent 7 (pushed (Suc 0) ?s1) = (''n'', pushed (Suc 0) ?s1)"
    by (simp add: registerComponent_def n1)
  show "wf_world (snd (handle_open (Suc 0) None ?s1))" using w1 by (rule handle_open_wf)
  show "handles (snd (handle_open (Suc 0) None ?s1))
     = [\<lparr>component = 7, ids = [''nn'']\<rparr>, \<lparr>component = 7, ids = [''nnn'']\<rparr>]"
    using w1 by (simp add: handle_open_handles h1 n1 example_world_facts)
  show "entries (snd (handle_open (Suc 0) None ?s1))
     = [(''u'', \<lparr>ident = ''u'', componentId = ''n'', props = Some [(''title'', 1)]\<rparr>),
        (''nn'', \<lparr>ident = ''nn'', componentId = ''n'', props = None\<rparr>),
        (''nnn'', \<lparr>ident = ''nnn'', componentId = ''n'', props = None\<rparr>)]"
    using w1 by (simp add: handle_open_entries e1 n1 h1 r2 example_world_facts)
  have o2: "snd (handle_open (Suc 0) None ?s1) =
      openModal (nanoid_seq ?s1 (nanoid_calls ?s1)) (component (handles ?s1 ! Suc 0)) None
        (pushed (Suc 0) ?s1)"
    by (rule handle_open_snd)
  show "componentIdMap (snd (handle_open (Suc 0) None ?s1)) ''n'' = Some 7"
    unfolding o2 using w1 by (simp add: openModal_install h1 r2 n1)
qed

lemma step_wf: "wf_world (fst x) \<Longrightarrow> wf_world (fst (step a x))"
proof -
  assume w: "wf_world (fst x)"
  obtain s l where x: "x = (s, l)" by (cases x)
  have ws: "wf_world s" using w x by simp
  show ?thesis
  proof (cases a)
    case (Create c)
    then show ?thesis using ws x
      by (simp add: createModal_def wf_world_def modals_def)
  next
    case (Open h p)
    then show ?thesis using ws x by (simp add: handle_open_wf)
  next
    case (Close h)
    then show ?thesis using ws x by (simp add: handle_close_wf)
  next
    case (Store_open i c p)
    then show ?thesis using ws x by (simp add: openModal_install)
  next
    case (Store_close i)
    then show ?thesis using ws x by (simp add: closeModal_install)
  next
    case Render
    then show ?thesis using ws x
      by (simp add: ModalRenderer_def render_all_eq wf_world_def modals_def)
  next
    case Unmount
    then show ?thesis using ws x by (simp add: unmount_install)
  qed
qed

lemma run_snoc: "run (acts @ [a]) gen = step a (run acts gen)"
  by (simp add: run_def)

lemma run_wf: "wf_world (fst (run acts gen))"
proof (induction acts rule: rev_induct)
  case Nil
  show ?case by (simp add: run_def wf_init)
next
  case (snoc a acts)
  then show ?case by (simp add: run_snoc step_wf)
qed

lemma run_invI:
  assumes "wf_world s" and "nanoid_seq s = gen"
    and "\<And>h i. h < length (handles s) \<Longrightarrow> i \<in> set (ids (handles s ! h)) \<Longrightarrow> (h, i) \<in> set l"
    and "\<And>h i. (h, i) \<in> set l \<Longrightarrow> \<exists>n < nanoid_calls s. i = gen n"
    and "\<And>h h' i. (h, i) \<in> set l \<Longrightarrow> (h', i) \<in> set l \<Longrightarrow> h = h'"
  shows "run_inv gen (s, l)"
  using assms unfolding run_inv_def by auto

lemma run_invD:
  assumes "run_inv gen (s, l)"
  shows "wf_world s" and "nanoid_seq s = gen"
    and "\<And>h i. h < length (handles s) \<Longrightarrow> i \<in> set (ids (handles s ! h)) \<Longrightarrow> (h, i) \<in> set l"
    and "\<And>h i. (h, i) \<in> set l \<Longrightarrow> \<exists>n < nanoid_calls s. i = gen n"
    and "\<And>h h' i. (h, i) \<in> set l \<Longrightarrow> (h', i) \<in> set l \<Longrightarrow> h = h'"
  using assms unfolding run_inv_def by auto

lemma openModal_frame:
  assumes "wf_world s"
  shows "handles (openModal i c p s) = handles s"
    "nanoid_seq (openModal i c p s) = nanoid_seq s"
    "wf_world (openModal i c p s)"
    "nanoid_calls s \<le> nanoid_calls (openModal i c p s)"
  using assms by (simp_all add: openModal_install register_calls)

lemma closeModal_frame:
  assumes "wf_world s"
  shows "handles (closeModal i s) = handles s"
    "nanoid_seq (closeModal i s) = nanoid_seq s"
    "nanoid_calls (closeModal i s) = nanoid_calls s"
    "wf_world (closeModal i s)"
  using assms by (simp_all add: closeModal_install)

lemma handle_open_frame:
  assumes "wf_world s"
  shows "nanoid_seq (snd (handle_open h p s)) = nanoid_seq s"
    "nanoid_calls s < nanoid_calls (snd (handle_open h p s))"
proof -
  have "wf_world (pushed h s)" using assms by simp
  from openModal_frame(2,4) [OF this]
  show "nanoid_seq (snd (handle_open h p s)) = nanoid_seq s"
    "nanoid_calls s < nanoid_calls (snd (handle_open h p s))"
    unfolding handle_open_snd by (simp_all add: Suc_le_eq)
qed

lemma handle_close_frame:
  assumes "wf_world s"
  shows "nanoid_seq (handle_close h s) = nanoid_seq s"
    "nanoid_calls (handle_close h s) = nanoid_calls s"
  using assms by (simp_all add: handle_close_eq closeModal_install)

lemma inv_create:
  assumes "run_inv gen (s, l)"
  shows "run_inv gen (step (Create c) (s, l))"
proof -
  note d = run_invD [OF assms]
  let ?s = "snd (createModal c s)"
  have hs: "handles ?s = handles s @ [\<lparr>component = c, ids = []\<rparr>]"
    and f: "nanoid_seq ?s = nanoid_seq s" "nanoid_calls ?s = nanoid_calls s" "wf_world ?s = wf_world s"
    by (simp_all add: createModal_def wf_world_def modals_def)
  have "run_inv gen (?s, l)"
  proof (rule run_invI)
    show "wf_world ?s" using d(1) f by simp
    show "nanoid_seq ?s = gen" using d(2) f by simp
  next
    fix h i assume h: "h < length (handles ?s)" and i: "i \<in> set (ids (handles ?s ! h))"
    show "(h, i) \<in> set l"
    proof (cases "h < length (handles s)")
      case True
      then show ?thesis using i d(3) [of h i] by (simp add: hs nth_append)
    next
      case False
      then have "h = length (handles s)" using h by (simp add: hs)
      then show ?thesis using i by (simp add: hs)
    qed
  next
    fix h i assume "(h, i) \<in> set l"
    then show "\<exists>n < nanoid_calls ?s. i = gen n" using d(4) f by simp
  next
    fix h h' i assume "(h, i) \<in> set l" "(h', i) \<in> set l"
    then show "h = h'" by (rule d(5))
  qed
  then show ?thesis by simp
qed

lemma inv_close:
  assumes "run_inv gen (s, l)" and hv: "h < length (handles s)"
  shows "run_inv gen (step (Close h) (s, l))"
proof -
  note d = run_invD [OF assms(1)]
  let ?s = "handle_close h s"
  have hs: "handles ?s = (handles s)[h := (handles s ! h)\<lparr>ids := butlast (ids (handles s ! h))\<rparr>]"
    using d(1) by (rule handle_close_handles)
  have "run_inv gen (?s, l)"
  proof (rule run_invI)
    show "wf_world ?s" using d(1) by (rule handle_close_wf)
    show "nanoid_seq ?s = gen" using d(1,2) by (simp add: handle_close_frame)
  next
    fix h1 i1 assume h1: "h1 < length (handles ?s)" and i1: "i1 \<in> set (ids (handles ?s ! h1))"
    have "i1 \<in> set (ids (handles s ! h1))"
    proof (cases "h1 = h")
      case True
      then show ?thesis using i1 hv by (auto simp: hs dest: in_set_butlastD)
    next
      case False
      then show ?thesis using i1 by (simp add: hs)
    qed
    then show "(h1, i1) \<in> set l" using d(3) [of h1 i1] h1 by (simp add: hs)
  next
    fix h1 i1 assume "(h1, i1) \<in> set l"
    then show "\<exists>n < nanoid_calls ?s. i1 = gen n"
      using d(4) d(1) by (simp add: handle_close_frame)
  next
    fix h1 h2 i1 assume "(h1, i1) \<in> set l" "(h2, i1) \<in> set l"
    then show "h1 = h2" by (rule d(5))
  qed
  then show ?thesis using hv by simp
qed

lemma inv_frame:
  assumes "run_inv gen (s, l)" and "wf_world s'" and "nanoid_seq s' = nanoid_seq s"
    and "handles s' = handles s" and "nanoid_calls s \<le> nanoid_calls s'"
  shows "run_inv gen (s', l)"
proof -
  note d = run_invD [OF assms(1)]
  show ?thesis
  proof (rule run_invI)
    show "wf_world s'" by fact
    show "nanoid_seq s' = gen" using d(2) assms(3) by simp
  next
    fix h i assume "h < length (handles s')" "i \<in> set (ids (handles s' ! h))"
    then show "(h, i) \<in> set l" using d(3) [of h i] assms(4) by simp
  next
    fix h i assume "(h, i) \<in> set l"
    then obtain n where "n < nanoid_calls s" "i = gen n" using d(4) by blast
    then show "\<exists>n < nanoid_calls s'. i = gen n" using assms(5) by (intro exI [of _ n]) simp
  next
    fix h h' i assume "(h, i) \<in> set l" "(h', i) \<in> set l"
    then show "h = h'" by (rule d(5))
  qed
qed

lemma inv_open:
  assumes "run_inv gen (s, l)" and inj: "inj gen" and hv: "h < length (handles s)"
  shows "run_inv gen (step (Open h p) (s, l))"
proof -
  note d = run_invD [OF assms(1)]
  let ?s = "snd (handle_open h p s)"
  let ?i = "gen (nanoid_calls s)"
  have i: "fst (handle_open h p s) = ?i" using d(2) by simp
  have hs: "handles ?s = (handles s)[h := (handles s ! h)\<lparr>ids := ids (handles s ! h) @ [?i]\<rparr>]"
    using d(1,2) by (simp add: handle_open_handles)
  have calls: "nanoid_calls s < nanoid_calls ?s" using d(1) by (rule handle_open_frame)
  have "run_inv gen (?s, l @ [(h, ?i)])"
  proof (rule run_invI)
    show "wf_world ?s" using d(1) by (rule handle_open_wf)
    show "nanoid_seq ?s = gen" using d(1,2) by (simp add: handle_open_frame)
  next
    fix h1 i1 assume h1: "h1 < length (handles ?s)" and i1: "i1 \<in> set (ids (handles ?s ! h1))"
    show "(h1, i1) \<in> set (l @ [(h, ?i)])"
    proof (cases "h1 = h")
      case True
      then have "i1 \<in> set (ids (handles s ! h)) \<or> i1 = ?i"
        using i1 hv by (auto simp: hs)
      then show ?thesis using d(3) [of h i1] hv True by auto
    next
      case False
      then have "i1 \<in> set (ids (handles s ! h1))" "h1 < length (handles s)"
        using i1 h1 by (simp_all add: hs)
      then show ?thesis using d(3) [of h1 i1] by simp
    qed
  next
    fix h1 i1 assume "(h1, i1) \<in> set (l @ [(h, ?i)])"
    then consider "(h1, i1) \<in> set l" | "i1 = ?i" by auto
    then show "\<exists>n < nanoid_calls ?s. i1 = gen n"
    proof cases
      case 1
      then obtain n where "n < nanoid_calls s" "i1 = gen n" using d(4) by blast
      then show ?thesis using calls by (intro exI [of _ n]) simp
    next
      case 2
      then show ?thesis using calls by blast
    qed
  next
    fix h1 h2 i1 assume a: "(h1, i1) \<in> set (l @ [(h, ?i)])" and b: "(h2, i1) \<in> set (l @ [(h, ?i)])"
    have new: "(h', ?i) \<notin> set l" for h'
    proof
      assume "(h', ?i) \<in> set l"
      then obtain n where "n < nanoid_calls s" "?i = gen n" using d(4) by blast
      then show False using inj by (auto dest: injD)
    qed
    show "h1 = h2"
    proof (cases "i1 = ?i")
      case True
      then show ?thesis using a b new by auto
    next
      case False
      then have "(h1, i1) \<in> set l" "(h2, i1) \<in> set l" using a b by auto
      then show ?thesis by (rule d(5))
    qed
  qed
  then show ?thesis using hv i by simp
qed

lemma inv_step:
  assumes "run_inv gen x" and "inj gen"
  shows "run_inv gen (step a x)"
proof -
  obtain s l where x: "x = (s, l)" by (cases x)
  note i = assms(1) [unfolded x]
  note w = run_invD(1) [OF i]
  show ?thesis
  proof (cases a)
    case (Create c)
    then show ?thesis unfolding x using i by (simp only: inv_create)
  next
    case (Open h p)
    show ?thesis
    proof (cases "h < length (handles s)")
      case True
      then show ?thesis unfolding x Open using i assms(2) by (simp only: inv_open)
    next
      case False
      then show ?thesis unfolding x Open using i by simp
    qed
  next
    case (Close h)
    show ?thesis
    proof (cases "h < length (handles s)")
      case True
      then show ?thesis unfolding x Close using i by (simp only: inv_close)
    next
      case False
      then show ?thesis unfolding x Close using i by simp
    qed
  next
    case (Store_open j c p)
    have "run_inv gen (openModal j c p s, l)"
      by (rule inv_frame [OF i]) (simp_all add: openModal_frame [OF w])
    then show ?thesis unfolding x Store_open by simp
  next
    case (Store_close j)
    have "run_inv gen (closeModal j s, l)"
      by (rule inv_frame [OF i]) (simp_all add: closeModal_frame [OF w])
    then show ?thesis unfolding x Store_close by simp
  next
    case Render
    have "run_inv gen (snd (ModalRenderer s), l)"
      using w by (intro inv_frame [OF i])
        (simp_all add: ModalRenderer_def render_all_eq wf_world_def modals_def)
    then show ?thesis unfolding x Render by simp
  next
    case Unmount
    have "run_inv gen (ModalProvider_unmount s, l)"
      using w by (intro inv_frame [OF i]) (simp_all add: unmount_install)
    then show ?thesis unfolding x Unmount by simp
  qed
qed

lemma inv_run:
  assumes "inj gen"
  shows "run_inv gen (run acts gen :: ('c, 'v) world \<times> (nat \<times> string) list)"
proof (induction acts rule: rev_induct)
  case Nil
  show ?case by (simp add: run_def run_inv_def wf_init) (simp add: init_world_def)
next
  case (snoc a acts)
  then show ?case using assms by (simp add: run_snoc inv_step)
qed

lemma keys_delete: "keys (AList.delete k al) = keys al - {k}"
proof -
  have "set (map fst (AList.delete k al)) = set (map fst al) - {k}"
    by (simp only: AList.delete_keys set_removeAll)
  then show ?thesis by (simp add: keys_def)
qed

lemma keys_update: "keys (AList.update k v al) = insert k (keys al)"
  by (simp add: keys_def AList.dom_update)

lemma sequence_isolated:
  assumes w: "wf_world s" and g: "nanoid_seq s = gen" and inj: "inj gen"
    and ne: "gen (nanoid_calls s) \<noteq> []"
    and h1: "h1 < length (handles s)" and h2: "h2 < length (handles s)" and d: "h1 \<noteq> h2"
  shows "case handle_open h1 p1 s of (i1, s1) \<Rightarrow>
         case handle_open h2 p2 s1 of (i2, s2) \<Rightarrow>
           i1 \<noteq> i2 \<and>
           i1 \<in> keys (entries s2) \<and> i2 \<in> keys (entries s2) \<and>
           entries (handle_close h1 s2) = AList.delete i1 (entries s2) \<and>
           i1 \<notin> keys (entries (handle_close h1 s2)) \<and>
           i2 \<in> keys (entries (handle_close h1 s2)) \<and>
           map_of (entries (handle_close h1 s2)) i2 = map_of (entries s2) i2 \<and>
           ids (handles (handle_close h1 s2) ! h2) = ids (handles s ! h2) @ [i2] \<and>
           ids (handles (handle_close h1 s2) ! h1) = ids (handles s ! h1)"
proof -
  let ?i1 = "gen (nanoid_calls s)"
  let ?s1 = "snd (handle_open h1 p1 s)"
  let ?i2 = "gen (nanoid_calls ?s1)"
  let ?s2 = "snd (handle_open h2 p2 ?s1)"
  have f1: "fst (handle_open h1 p1 s) = ?i1" using g by simp
  have w1: "wf_world ?s1" using w by (rule handle_open_wf)
  have g1: "nanoid_seq ?s1 = gen" using w g by (simp add: handle_open_frame)
  have f2: "fst (handle_open h2 p2 ?s1) = ?i2" using g1 by simp
  have "nanoid_calls s < nanoid_calls ?s1" using w by (rule handle_open_frame)
  then have ne12: "?i1 \<noteq> ?i2" using inj by (auto dest: injD)
  have hs1: "handles ?s1 = (handles s)[h1 := (handles s ! h1)\<lparr>ids := ids (handles s ! h1) @ [?i1]\<rparr>]"
    using w g by (simp add: handle_open_handles)
  have w2: "wf_world ?s2" using w1 by (rule handle_open_wf)
  have hs2: "handles ?s2 = (handles ?s1)[h2 := (handles ?s1 ! h2)\<lparr>ids := ids (handles ?s1 ! h2) @ [?i2]\<rparr>]"
    using w1 g1 by (simp add: handle_open_handles)
  have st1: "ids (handles ?s2 ! h1) = ids (handles s ! h1) @ [?i1]"
    unfolding hs2 using h1 h2 d by (simp add: hs1)
  have st2: "ids (handles ?s2 ! h2) = ids (handles s ! h2) @ [?i2]"
    unfolding hs2 using h1 h2 d by (simp add: hs1)
  have len2: "length (handles ?s2) = length (handles s)"
    unfolding hs2 by (simp add: hs1)
  have k1: "?i1 \<in> keys (entries ?s1)"
    using w g by (simp add: handle_open_entries keys_update)
  have k2: "keys (entries ?s2) = insert ?i2 (keys (entries ?s1))"
    using w1 g1 by (simp add: handle_open_entries keys_update)
  have e3: "entries (handle_close h1 ?s2) = AList.delete ?i1 (entries ?s2)"
    using w2 st1 ne by (simp add: handle_close_entries)
  have k3: "keys (entries (handle_close h1 ?s2)) = keys (entries ?s2) - {?i1}"
    unfolding e3 by (rule keys_delete)
  have m3: "map_of (entries (handle_close h1 ?s2)) ?i2 = map_of (entries ?s2) ?i2"
    unfolding e3 using ne12 by simp
  have hs3: "handles (handle_close h1 ?s2) =
      (handles ?s2)[h1 := (handles ?s2 ! h1)\<lparr>ids := butlast (ids (handles ?s2 ! h1))\<rparr>]"
    using w2 by (rule handle_close_handles)
  have st3: "ids (handles (handle_close h1 ?s2) ! h2) = ids (handles s ! h2) @ [?i2]"
    "ids (handles (handle_close h1 ?s2) ! h1) = ids (handles s ! h1)"
    unfolding hs3 using h1 h2 d len2 by (simp_all add: st1 st2)
  show ?thesis
    unfolding split_beta f1 f2
    using ne12 k1 k2 e3 k3 m3 st3 by simp
qed

lemma close_spares_others:
  assumes inj: "inj gen" and r: "run acts gen = (t, l)"
    and h: "h < length (handles t)" and o: "(h', i) \<in> set l" and d: "h' \<noteq> h"
  shows "map_of (entries (handle_close h t)) i = map_of (entries t) i \<and>
         (i \<in> keys (entries t) \<longrightarrow> i \<in> keys (entries (handle_close h t)))"
proof -
  have "run_inv gen (t, l)" using inv_run [OF inj, of acts] r by simp
  note v = run_invD [OF this]
  have m: "map_of (entries (handle_close h t)) i = map_of (entries t) i"
  proof (cases "ids (handles t ! h) \<noteq> [] \<and> last (ids (handles t ! h)) \<noteq> []")
    case True
    then have "last (ids (handles t ! h)) \<in> set (ids (handles t ! h))" by simp
    then have "(h, last (ids (handles t ! h))) \<in> set l" using v(3) h by blast
    then have "last (ids (handles t ! h)) \<noteq> i" using v(5) o d by blast
    then show ?thesis using True v(1) by (simp add: handle_close_entries)
  next
    case False
    then show ?thesis using v(1) by (auto simp: handle_close_entries)
  qed
  have "i \<in> keys al \<longleftrightarrow> map_of al i \<noteq> None" for al :: "(string \<times> 'b ModalState) list"
    by (simp add: keys_def map_of_eq_None_iff)
  then show ?thesis using m by simp
qed

lemma inj_example_ids: "inj example_ids"
proof (rule injI)
  fix x y assume "example_ids x = example_ids y"
  then have "length (example_ids x) = length (example_ids y)" by simp
  then show "x = y" by (simp add: example_ids_def)
qed

lemma example_run:
  "snd (run [Create 7, Create 7, Open 0 None, Open (Suc 0) None] example_ids
         :: (nat, nat) world \<times> (nat \<times> string) list)
     = [(0, ''n''), (Suc 0, ''nnn'')]"
  "length (handles (fst (run [Create 7, Create 7, Open 0 None, Open (Suc 0) None] example_ids
         :: (nat, nat) world \<times> (nat \<times> string) list))) = 2"
  "entries (fst (run [Create 7, Create 7, Open 0 None, Open (Suc 0) None] example_ids
         :: (nat, nat) world \<times> (nat \<times> string) list))
     = [(''n'', \<lparr>ident = ''n'', componentId = ''nn'', props = None\<rparr>),
        (''nnn'', \<lparr>ident = ''nnn'', componentId = ''nn'', props = None\<rparr>)]"
  "ids (handles (fst (run [Create 7, Create 7, Open 0 None, Open (Suc 0) None] example_ids
         :: (nat, nat) world \<times> (nat \<times> string) list)) ! 0) = [''n'']"
  by (simp_all add: run_def createModal_def init_world_def handle_open_def nanoid_def
      openModal_def registerComponent_def setState_def Map_new_def Map_set_def new_state_def
      Let_def entries_def modals_def example_ids_def nth_append)





section \<open>Closing with nothing to close\<close>

text \<open>
  Claim C4, as stated: closing with nothing to close performs no mutation; \<open>close()\<close> on
  a handle with an empty stack changes nothing, and \<open>closeModal(id)\<close> for an id that is
  not in the store leaves the store unchanged.

  The second half fails on the code. \<open>closeModal\<close> has no test for the presence of the
  id: it always copies the Map, deletes from the copy and hands a new state object to
  zustand, which installs it and calls the listeners. On the freshly loaded module, closing
  the absent id \<open>x\<close> moves \<open>getState().modals\<close> from Map object 0 to Map object 1 and
  produces one round of listener calls.
\<close>

theorem closeModal_absent_counterexample:
  "''x'' \<notin> keys (entries (init_world example_ids :: (nat, nat) world)) \<and>
   closeModal ''x'' (init_world example_ids :: (nat, nat) world) \<noteq> init_world example_ids \<and>
   modals (closeModal ''x'' (init_world example_ids :: (nat, nat) world)) = 1 \<and>
   modals (init_world example_ids :: (nat, nat) world) = 0 \<and>
   notifications (init_world example_ids :: (nat, nat) world) = [] \<and>
   notifications (closeModal ''x'' (init_world example_ids :: (nat, nat) world)) = [(2, 0)]"
proof -
  let ?W = "init_world example_ids :: (nat, nat) world"
  have m: "modals (closeModal ''x'' ?W) = 1" "modals ?W = 0"
    "notifications ?W = []" "notifications (closeModal ''x'' ?W) = [(2, 0)]"
    "''x'' \<notin> keys (entries ?W)"
    by (simp_all add: closeModal_def setState_def Map_new_def Map_delete_def new_state_def
      modals_def entries_def init_world_def Let_def keys_def)
  then have "closeModal ''x'' ?W \<noteq> ?W" by auto
  with m show ?thesis by simp
qed

text \<open>
  Claim C4, amended: \<open>close()\<close> on a handle whose stack is empty changes nothing at all.
  \<open>closeModal(id)\<close> for an id that is not in the store never fails and leaves the
  entries of the store, their order, the handles, the registry and the console as they
  were; it still installs a new Map object as \<open>modals\<close> and notifies the listeners once.
\<close>

theorem closing_nothing:
  "(h < length (handles s) \<longrightarrow> ids (handles s ! h) = [] \<longrightarrow> handle_close h s = s) \<and>
   (wf_world s \<longrightarrow> i \<notin> keys (entries s) \<longrightarrow>
      entries (closeModal i s) = entries s \<and>
      handles (closeModal i s) = handles s \<and>
      componentRegistry (closeModal i s) = componentRegistry s \<and>
      componentIdMap (closeModal i s) = componentIdMap s \<and>
      console (closeModal i s) = console s \<and>
      modals (closeModal i s) \<noteq> modals s \<and>
      notifications (closeModal i s) = notifications s @ [(state (closeModal i s), state s)])"
  by (auto simp: handle_close_empty closeModal_install keys_def AList.delete_id wf_world_def)

theorem closing_nothing_witness:
  "0 < length (handles (snd (createModal (7::nat) (init_world example_ids :: (nat, nat) world)))) \<and>
   ids (handles (snd (createModal (7::nat) (init_world example_ids :: (nat, nat) world))) ! 0) = [] \<and>
   handle_close 0 (snd (createModal (7::nat) (init_world example_ids :: (nat, nat) world)))
     = snd (createModal (7::nat) (init_world example_ids :: (nat, nat) world)) \<and>
   wf_world (snd (createModal (7::nat) (init_world example_ids :: (nat, nat) world))) \<and>
   ''x'' \<notin> keys (entries (snd (createModal (7::nat) (init_world example_ids :: (nat, nat) world)))) \<and>
   entries (closeModal ''x'' (snd (createModal (7::nat) (init_world example_ids :: (nat, nat) world)))) = [] \<and>
   notifications (closeModal ''x'' (snd (createModal (7::nat) (init_world example_ids :: (nat, nat) world))))
     = [(2, 0)]"
proof -
  let ?s = "snd (createModal (7::nat) (init_world example_ids :: (nat, nat) world))"
  have hyp: "0 < length (handles ?s)" "ids (handles ?s ! 0) = []" "wf_world ?s"
    "''x'' \<notin> keys (entries ?s)" "entries ?s = []" "notifications ?s = []" "state ?s = 0"
    by (simp_all add: createModal_def init_world_def wf_world_def modals_def entries_def keys_def)
  have "state (closeModal ''x'' ?s) = 2"
    using hyp(3) by (simp add: closeModal_install) (simp add: createModal_def init_world_def)
  then show ?thesis
    using closing_nothing [of 0 ?s "''x''"] hyp by simp
qed

section \<open>Snapshots\<close>

text \<open>
  Claim C5: \<open>openModal\<close> and \<open>closeModal\<close> replace the whole mapping by a new
  snapshot and never modify the previous one in place. In a world without dangling
  references, every Map object that exists before the call (in particular the current
  snapshot) has the same entries after it; the call allocates exactly one Map object, the
  store's \<open>modals\<close> refers to it afterwards, and its entries are the old ones with the
  instance set, respectively deleted.
\<close>

theorem snapshot_immutable:
  assumes "wf_world s" and "r < length (map_heap s)"
  shows "map_heap (openModal i c p s) ! r = map_heap s ! r \<and>
         map_heap (openModal i c p s) ! modals s = entries s \<and>
         modals (openModal i c p s) \<noteq> r \<and>
         length (map_heap (openModal i c p s)) = Suc (length (map_heap s)) \<and>
         entries (openModal i c p s) =
           AList.update i \<lparr>ident = i, componentId = fst (registerComponent c s), props = p\<rparr>
             (entries s) \<and>
         map_heap (closeModal i s) ! r = map_heap s ! r \<and>
         map_heap (closeModal i s) ! modals s = entries s \<and>
         modals (closeModal i s) \<noteq> r \<and>
         length (map_heap (closeModal i s)) = Suc (length (map_heap s)) \<and>
         entries (closeModal i s) = AList.delete i (entries s)"
  using assms
  by (simp add: openModal_install closeModal_install nth_append wf_world_def)
    (simp add: entries_def)

theorem snapshot_immutable_witness:
  "wf_world (init_world example_ids :: (nat, nat) world) \<and>
   0 < length (map_heap (init_world example_ids :: (nat, nat) world)) \<and>
   map_heap (init_world example_ids :: (nat, nat) world) ! 0 = [] \<and>
   map_heap (openModal ''m'' 7 None (init_world example_ids :: (nat, nat) world)) ! 0 = [] \<and>
   entries (openModal ''m'' 7 None (init_world example_ids :: (nat, nat) world))
     = [(''m'', \<lparr>ident = ''m'', componentId = ''n'', props = None\<rparr>)] \<and>
   modals (openModal ''m'' 7 None (init_world example_ids :: (nat, nat) world)) \<noteq> 0"
proof -
  let ?s = "init_world example_ids :: (nat, nat) world"
  have hyp: "wf_world ?s" "0 < length (map_heap ?s)" "map_heap ?s ! 0 = []" "entries ?s = []"
    "fst (registerComponent 7 ?s) = ''n''"
    by (simp_all add: init_world_def wf_world_def modals_def entries_def registerComponent_def
        nanoid_def example_ids_def)
  show ?thesis
    using snapshot_immutable [of ?s 0 "''m''" 7 None] hyp by simp
qed

text \<open>
  Claim C10: every call of \<open>closeModal\<close>, also for an id that is not in the store,
  installs a newly allocated Map object: its reference is the first unused one, so it
  differs from the old \<open>modals\<close>; the Map objects that existed before are untouched;
  the new entries are the old ones without the id, hence the same entries when the id was
  absent; the current state object changes and the listeners are called once with the new
  and the previous state.
\<close>

theorem closeModal_fresh_map:
  assumes "wf_world s"
  shows "modals (closeModal i s) = length (map_heap s) \<and>
         modals (closeModal i s) \<noteq> modals s \<and>
         take (length (map_heap s)) (map_heap (closeModal i s)) = map_heap s \<and>
         entries (closeModal i s) = AList.delete i (entries s) \<and>
         (i \<notin> keys (entries s) \<longrightarrow> entries (closeModal i s) = entries s) \<and>
         state (closeModal i s) \<noteq> state s \<and>
         notifications (closeModal i s) = notifications s @ [(state (closeModal i s), state s)]"
  using assms
  by (auto simp: closeModal_install keys_def AList.delete_id wf_world_def)

theorem closeModal_fresh_map_witness:
  "wf_world (init_world example_ids :: (nat, nat) world) \<and>
   ''q'' \<notin> keys (entries (init_world example_ids :: (nat, nat) world)) \<and>
   modals (closeModal ''q'' (init_world example_ids :: (nat, nat) world)) = 1 \<and>
   entries (closeModal ''q'' (init_world example_ids :: (nat, nat) world)) = [] \<and>
   state (closeModal ''q'' (init_world example_ids :: (nat, nat) world)) \<noteq> 0"
proof -
  let ?s = "init_world example_ids :: (nat, nat) world"
  have hyp: "wf_world ?s" "''q'' \<notin> keys (entries ?s)" "entries ?s = []"
    "length (map_heap ?s) = 1" "state ?s = 0"
    by (simp_all add: init_world_def wf_world_def modals_def entries_def keys_def)
  show ?thesis
    using closeModal_fresh_map [of ?s "''q''"] hyp by simp
qed

section \<open>Opening and closing through a handle\<close>

text \<open>
  Claim C1: for a handle created by \<open>createModal\<close> and any store state, \<open>open(props)\<close>
  adds exactly one entry, so the size grows by one, and the \<open>close()\<close> that follows
  removes exactly the id just opened, which gives back the former entries, props included.
  The id is the one \<open>nanoid\<close> returns; what is asked of \<open>nanoid\<close> is its contract,
  a non-empty id that is not yet a key of the store. The new entry comes last, carries the
  returned id and the given props, and after the close the handle's stack is what it was.
\<close>

theorem open_close_inverse:
  assumes "wf_world s" and "h < length (handles s)"
    and "nanoid_seq s (nanoid_calls s) \<notin> keys (entries s)"
    and "nanoid_seq s (nanoid_calls s) \<noteq> []"
  shows "case handle_open h p s of (i, s1) \<Rightarrow>
     i = nanoid_seq s (nanoid_calls s) \<and>
     (\<exists>m. entries s1 = entries s @ [(i, m)] \<and> ident m = i \<and> props m = p) \<and>
     length (entries s1) = Suc (length (entries s)) \<and>
     last (ids (handles s1 ! h)) = i \<and>
     entries (handle_close h s1) = AList.delete i (entries s1) \<and>
     entries (handle_close h s1) = entries s \<and>
     length (entries (handle_close h s1)) = length (entries s) \<and>
     ids (handles (handle_close h s1) ! h) = ids (handles s ! h)"
proof -
  let ?i = "nanoid_seq s (nanoid_calls s)"
  let ?s1 = "snd (handle_open h p s)"
  let ?m = "\<lparr>ident = ?i,
        componentId = fst (registerComponent (component (handles s ! h)) (pushed h s)),
        props = p\<rparr>"
  have e1: "entries ?s1 = entries s @ [(?i, ?m)]"
    using assms by (simp add: handle_open_entries update_fresh keys_def)
  have h1: "ids (handles ?s1 ! h) = ids (handles s ! h) @ [?i]"
    using assms by (simp add: handle_open_handles)
  have w1: "wf_world ?s1" using assms by (simp add: handle_open_wf)
  have e2: "entries (handle_close h ?s1) = AList.delete ?i (entries ?s1)"
    using w1 h1 assms by (simp add: handle_close_entries)
  have e3: "AList.delete ?i (entries ?s1) = entries s"
    using assms e1 by (simp add: delete_snoc_fresh keys_def)
  have h2: "ids (handles (handle_close h ?s1) ! h) = ids (handles s ! h)"
    using w1 h1 assms by (simp add: handle_close_handles handle_open_handles)
  have "\<exists>m. entries ?s1 = entries s @ [(?i, m)] \<and> ident m = ?i \<and> props m = p"
    using e1 by (intro exI [of _ ?m]) simp
  then show ?thesis
    using e1 e2 e3 h1 h2 by (simp add: split_beta)
qed

theorem open_close_inverse_witness:
  "wf_world example_world \<and> 0 < length (handles example_world) \<and>
   nanoid_seq example_world (nanoid_calls example_world) \<notin> keys (entries example_world) \<and>
   nanoid_seq example_world (nanoid_calls example_world) \<noteq> [] \<and>
   fst (handle_open 0 (Some [(''title'', 2)]) example_world) = ''nn'' \<and>
   length (entries (snd (handle_open 0 (Some [(''title'', 2)]) example_world))) = 2 \<and>
   entries (handle_close 0 (snd (handle_open 0 (Some [(''title'', 2)]) example_world)))
     = [(''u'', \<lparr>ident = ''u'', componentId = ''n'', props = Some [(''title'', 1)]\<rparr>)]"
proof -
  have hyp: "wf_world example_world" "0 < length (handles example_world)"
    "nanoid_seq example_world (nanoid_calls example_world) \<notin> keys (entries example_world)"
    "nanoid_seq example_world (nanoid_calls example_world) \<noteq> []"
    by (simp_all add: example_world_facts keys_def)
  show ?thesis
    using open_close_inverse [OF hyp, of "Some [(''title'', 2)]"] hyp
    by (auto simp: split_beta example_world_facts)
qed

text \<open>
  Claim C2: a handle's \<open>close\<close> never removes an instance opened by another handle,
  also when both handles were created from the same component. \<open>nanoid\<close> is asked
  for its contract: it never returns the same id twice (and the id of the first
  \<open>open\<close> is non-empty, so that the \<open>close\<close> acts on it).

  First, in any world and for two different handles: after \<open>h1.open(); h2.open();
  h1.close()\<close> the store is the one before the close without \<open>h1\<close>'s instance,
  \<open>h2\<close>'s instance is still there with its entry unchanged, and \<open>h2\<close>'s stack
  still holds its id. Second, after any run of the module from its initial state, if an
  \<open>open\<close> of handle \<open>h'\<close> returned the id \<open>i\<close> at some point of the run, a
  \<open>close\<close> of a different handle \<open>h\<close> leaves the entry of \<open>i\<close> as it is: if
  \<open>i\<close> was in the store, it still is.
\<close>

theorem stack_ownership:
  assumes "inj gen"
  shows "(wf_world (s :: ('c, 'v) world) \<and> nanoid_seq s = gen \<and> gen (nanoid_calls s) \<noteq> [] \<and>
          h1 < length (handles s) \<and> h2 < length (handles s) \<and> h1 \<noteq> h2 \<longrightarrow>
          (case handle_open h1 p1 s of (i1, s1) \<Rightarrow>
           case handle_open h2 p2 s1 of (i2, s2) \<Rightarrow>
             i1 \<noteq> i2 \<and>
             i1 \<in> keys (entries s2) \<and> i2 \<in> keys (entries s2) \<and>
             entries (handle_close h1 s2) = AList.delete i1 (entries s2) \<and>
             i1 \<notin> keys (entries (handle_close h1 s2)) \<and>
             i2 \<in> keys (entries (handle_close h1 s2)) \<and>
             map_of (entries (handle_close h1 s2)) i2 = map_of (entries s2) i2 \<and>
             ids (handles (handle_close h1 s2) ! h2) = ids (handles s ! h2) @ [i2] \<and>
             ids (handles (handle_close h1 s2) ! h1) = ids (handles s ! h1))) \<and>
         (run acts gen = ((t :: ('c, 'v) world), l) \<and> h < length (handles t) \<and>
          (h', i) \<in> set l \<and> h' \<noteq> h \<longrightarrow>
            map_of (entries (handle_close h t)) i = map_of (entries t) i \<and>
            (i \<in> keys (entries t) \<longrightarrow> i \<in> keys (entries (handle_close h t))))"
proof (intro conjI impI)
  assume a: "wf_world s \<and> nanoid_seq s = gen \<and> gen (nanoid_calls s) \<noteq> [] \<and>
          h1 < length (handles s) \<and> h2 < length (handles s) \<and> h1 \<noteq> h2"
  show "case handle_open h1 p1 s of (i1, s1) \<Rightarrow>
           case handle_open h2 p2 s1 of (i2, s2) \<Rightarrow>
             i1 \<noteq> i2 \<and>
             i1 \<in> keys (entries s2) \<and> i2 \<in> keys (entries s2) \<and>
             entries (handle_close h1 s2) = AList.delete i1 (entries s2) \<and>
             i1 \<notin> keys (entries (handle_close h1 s2)) \<and>
             i2 \<in> keys (entries (handle_close h1 s2)) \<and>
             map_of (entries (handle_close h1 s2)) i2 = map_of (entries s2) i2 \<and>
             ids (handles (handle_close h1 s2) ! h2) = ids (handles s ! h2) @ [i2] \<and>
             ids (handles (handle_close h1 s2) ! h1) = ids (handles s ! h1)"
    using a assms by (intro sequence_isolated) blast+
next
  assume b: "run acts gen = (t, l) \<and> h < length (handles t) \<and> (h', i) \<in> set l \<and> h' \<noteq> h"
  have c: "map_of (entries (handle_close h t)) i = map_of (entries t) i \<and>
      (i \<in> keys (entries t) \<longrightarrow> i \<in> keys (entries (handle_close h t)))"
    using b assms by (intro close_spares_others [of gen acts t l h h' i]) blast+
  show "map_of (entries (handle_close h t)) i = map_of (entries t) i" using c by simp
  assume "i \<in> keys (entries t)"
  then show "i \<in> keys (entries (handle_close h t))" using c by simp
qed

theorem stack_ownership_witness:
  "inj example_ids \<and>
   wf_world example_world \<and> nanoid_seq example_world = example_ids \<and>
   example_ids (nanoid_calls example_world) \<noteq> [] \<and>
   0 < length (handles example_world) \<and> Suc 0 < length (handles example_world) \<and>
   fst (handle_open 0 None example_world) = ''nn'' \<and>
   fst (handle_open (Suc 0) None (snd (handle_open 0 None example_world))) = ''nnn'' \<and>
   entries (handle_close 0
       (snd (handle_open (Suc 0) None (snd (handle_open 0 None example_world)))))
     = [(''u'', \<lparr>ident = ''u'', componentId = ''n'', props = Some [(''title'', 1)]\<rparr>),
        (''nnn'', \<lparr>ident = ''nnn'', componentId = ''n'', props = None\<rparr>)] \<and>
   (let R = run [Create 7, Create 7, Open 0 None, Open (Suc 0) None] example_ids
              :: (nat, nat) world \<times> (nat \<times> string) list in
      0 < length (handles (fst R)) \<and> (Suc 0, ''nnn'') \<in> set (snd R) \<and>
      ''nnn'' \<in> keys (entries (fst R)) \<and>
      ids (handles (fst R) ! 0) = [''n''] \<and>
      map_of (entries (handle_close 0 (fst R))) ''nnn''
        = Some \<lparr>ident = ''nnn'', componentId = ''nn'', props = None\<rparr> \<and>
      ''nnn'' \<in> keys (entries (handle_close 0 (fst R))))"
proof -
  let ?R = "run [Create 7, Create 7, Open 0 None, Open (Suc 0) None] example_ids
              :: (nat, nat) world \<times> (nat \<times> string) list"
  let ?W = "snd (handle_open (Suc 0) None (snd (handle_open 0 None example_world)))"
  note t = stack_ownership [OF inj_example_ids, of example_world 0 "Suc 0" None None
      "[Create 7, Create 7, Open 0 None, Open (Suc 0) None]" "fst ?R" "snd ?R" 0 "Suc 0" "''nnn''"]
  have hypA: "wf_world example_world" "nanoid_seq example_world = example_ids"
    "example_ids (nanoid_calls example_world) \<noteq> []"
    "0 < length (handles example_world)" "Suc 0 < length (handles example_world)"
    by (simp_all add: example_world_facts)
  have hypB: "0 < length (handles (fst ?R))" "(Suc 0, ''nnn'') \<in> set (snd ?R)"
    "''nnn'' \<in> keys (entries (fst ?R))" "ids (handles (fst ?R) ! 0) = [''n'']"
    by (simp_all add: example_run keys_def)
  have f: "fst (handle_open 0 None example_world) = ''nn''"
    "fst (handle_open (Suc 0) None (snd (handle_open 0 None example_world))) = ''nnn''"
    using hypA(1) by (simp_all add: example_world_facts handle_open_frame)
      (simp add: handle_open_snd openModal_install registerComponent_def example_world_facts)
  have A: "entries (handle_close 0 ?W) = AList.delete ''nn'' (entries ?W)"
    using t hypA f by (simp add: split_beta)
  have B: "map_of (entries (handle_close 0 (fst ?R))) ''nnn'' = map_of (entries (fst ?R)) ''nnn''"
    "''nnn'' \<in> keys (entries (handle_close 0 (fst ?R)))"
    using t hypB by simp_all
  show ?thesis
    unfolding Let_def
    using inj_example_ids hypA hypB f A B by (simp add: both_opened example_run)
qed

text \<open>
  Claim C9, as stated: when an instance opened by handle \<open>h\<close> is removed from the
  store by id, \<open>h\<close>'s next \<open>close()\<close> pops the stale id and leaves the contents of the
  store unchanged.

  This fails when the removed instance is not the one \<open>h\<close> opened last. Handle 0 opens
  \<open>nn\<close> and then \<open>nnn\<close>; \<open>closeModal(nn)\<close> removes the older one and leaves
  the stack \<open>[nn, nnn]\<close>; the next \<open>close()\<close> pops \<open>nnn\<close>, not the stale
  \<open>nn\<close>, and removes the live instance \<open>nnn\<close> from the store.
\<close>

theorem stale_stack_counterexample:
  "ids (handles (snd (handle_open 0 None (snd (handle_open 0 None example_world)))) ! 0)
     = [''nn'', ''nnn''] \<and>
   entries (closeModal ''nn'' (snd (handle_open 0 None (snd (handle_open 0 None example_world)))))
     = [(''u'', \<lparr>ident = ''u'', componentId = ''n'', props = Some [(''title'', 1)]\<rparr>),
        (''nnn'', \<lparr>ident = ''nnn'', componentId = ''n'', props = None\<rparr>)] \<and>
   ids (handles (closeModal ''nn''
       (snd (handle_open 0 None (snd (handle_open 0 None example_world))))) ! 0)
     = [''nn'', ''nnn''] \<and>
   entries (handle_close 0 (closeModal ''nn''
       (snd (handle_open 0 None (snd (handle_open 0 None example_world))))))
     = [(''u'', \<lparr>ident = ''u'', componentId = ''n'', props = Some [(''title'', 1)]\<rparr>)] \<and>
   entries (handle_close 0 (closeModal ''nn''
       (snd (handle_open 0 None (snd (handle_open 0 None example_world))))))
     \<noteq> entries (closeModal ''nn''
       (snd (handle_open 0 None (snd (handle_open 0 None example_world))))) \<and>
   ids (handles (handle_close 0 (closeModal ''nn''
       (snd (handle_open 0 None (snd (handle_open 0 None example_world)))))) ! 0)
     = [''nn'']"
proof -
  let ?s = "snd (handle_open 0 None (snd (handle_open 0 None example_world)))"
  let ?s2 = "closeModal ''nn'' ?s"
  have w: "wf_world ?s" by (simp add: two_opened)
  have w2: "wf_world ?s2" using w by (simp add: closeModal_install)
  have h2: "handles ?s2 = handles ?s" using w by (simp add: closeModal_install)
  have e2: "entries ?s2 =
      [(''u'', \<lparr>ident = ''u'', componentId = ''n'', props = Some [(''title'', 1)]\<rparr>),
       (''nnn'', \<lparr>ident = ''nnn'', componentId = ''n'', props = None\<rparr>)]"
    using w by (simp add: closeModal_install two_opened)
  have e3: "entries (handle_close 0 ?s2) =
      [(''u'', \<lparr>ident = ''u'', componentId = ''n'', props = Some [(''title'', 1)]\<rparr>)]"
    using w2 by (simp add: handle_close_entries h2 e2 two_opened)
  have h3: "ids (handles (handle_close 0 ?s2) ! 0) = [''nn'']"
    using w2 by (simp add: handle_close_handles h2 two_opened)
  show ?thesis using e2 e3 h3 by (simp add: h2 two_opened)
qed

text \<open>
  Claim C9, amended: a handle's stack is not synchronised with removals by id:
  \<open>closeModal(i)\<close> (which is also what the injected \<open>close\<close> of a rendered instance
  calls) removes \<open>i\<close> from the store and changes no stack. If \<open>i\<close> is the top of
  \<open>h\<close>'s stack, the instance \<open>h\<close> opened last, the next \<open>close()\<close> of \<open>h\<close>
  pops \<open>i\<close> and leaves the entries of the store as they are, so an earlier instance of
  \<open>h\<close> stays open, and only one more \<open>close()\<close> removes that earlier instance. If
  the top of \<open>h\<close>'s stack is another id \<open>j\<close>, the next \<open>close()\<close> of \<open>h\<close>
  pops \<open>j\<close> and removes the instance \<open>j\<close>; a stale \<open>i\<close> further down stays on
  the stack.
\<close>

theorem stale_stack:
  assumes "wf_world s" and "h < length (handles s)"
  shows "handles (closeModal i s) = handles s \<and>
         i \<notin> keys (entries (closeModal i s)) \<and>
         (ids (handles s ! h) = st @ [i] \<longrightarrow>
            ids (handles (handle_close h (closeModal i s)) ! h) = st \<and>
            entries (handle_close h (closeModal i s)) = entries (closeModal i s) \<and>
            (st \<noteq> [] \<longrightarrow> last st \<noteq> [] \<longrightarrow>
               entries (handle_close h (handle_close h (closeModal i s)))
                 = AList.delete (last st) (entries (closeModal i s)))) \<and>
         (ids (handles s ! h) = st @ [j] \<and> j \<noteq> i \<and> j \<noteq> [] \<longrightarrow>
            ids (handles (handle_close h (closeModal i s)) ! h) = st \<and>
            entries (handle_close h (closeModal i s)) = AList.delete j (entries (closeModal i s)) \<and>
            j \<notin> keys (entries (handle_close h (closeModal i s))))"
proof -
  let ?s2 = "closeModal i s"
  let ?s3 = "handle_close h ?s2"
  have w2: "wf_world ?s2" and hs2: "handles ?s2 = handles s"
    and e2: "entries ?s2 = AList.delete i (entries s)"
    using assms by (simp_all add: closeModal_install)
  have k2: "i \<notin> keys (entries ?s2)"
    by (simp add: e2 keys_def AList.delete_notin_dom)
  have w3: "wf_world ?s3" using w2 by (rule handle_close_wf)
  have top: "ids (handles ?s3 ! h) = st \<and> entries ?s3 = entries ?s2 \<and>
      (st \<noteq> [] \<longrightarrow> last st \<noteq> [] \<longrightarrow>
         entries (handle_close h ?s3) = AList.delete (last st) (entries ?s2))"
    if t: "ids (handles s ! h) = st @ [i]"
  proof -
    have "entries ?s3 = (if i \<noteq> [] then AList.delete i (entries ?s2) else entries ?s2)"
      using w2 hs2 t by (simp add: handle_close_entries)
    moreover have "AList.delete i (entries ?s2) = entries ?s2"
      using k2 by (simp add: keys_def AList.delete_id)
    ultimately have e3: "entries ?s3 = entries ?s2" by simp
    have h3: "ids (handles ?s3 ! h) = st"
      using w2 hs2 t assms(2) by (simp add: handle_close_handles)
    have e4: "st \<noteq> [] \<longrightarrow> last st \<noteq> [] \<longrightarrow>
        entries (handle_close h ?s3) = AList.delete (last st) (entries ?s2)"
      using w3 h3 e3 by (simp add: handle_close_entries)
    show ?thesis using e3 h3 e4 by simp
  qed
  have other: "ids (handles ?s3 ! h) = st \<and> entries ?s3 = AList.delete j (entries ?s2) \<and>
      j \<notin> keys (entries ?s3)"
    if t: "ids (handles s ! h) = st @ [j] \<and> j \<noteq> i \<and> j \<noteq> []"
  proof -
    have e3: "entries ?s3 = AList.delete j (entries ?s2)"
      using w2 hs2 t by (simp add: handle_close_entries)
    have h3: "ids (handles ?s3 ! h) = st"
      using w2 hs2 t assms(2) by (simp add: handle_close_handles)
    have "j \<notin> keys (entries ?s3)"
      unfolding e3 by (simp add: keys_def AList.delete_notin_dom)
    then show ?thesis using e3 h3 by simp
  qed
  show ?thesis using hs2 k2 top other by blast
qed

theorem stale_stack_witness:
  "wf_world (snd (handle_open 0 None (snd (handle_open 0 None example_world)))) \<and>
   0 < length (handles (snd (handle_open 0 None (snd (handle_open 0 None example_world))))) \<and>
   ids (handles (snd (handle_open 0 None (snd (handle_open 0 None example_world)))) ! 0)
     = [''nn''] @ [''nnn''] \<and>
   [''nn''] \<noteq> [] \<and> last [''nn''] \<noteq> [] \<and> ''nnn'' \<noteq> ''nn'' \<and> ''nnn'' \<noteq> [] \<and>
   entries (handle_close 0 (closeModal ''nnn''
       (snd (handle_open 0 None (snd (handle_open 0 None example_world))))))
     = [(''u'', \<lparr>ident = ''u'', componentId = ''n'', props = Some [(''title'', 1)]\<rparr>),
        (''nn'', \<lparr>ident = ''nn'', componentId = ''n'', props = None\<rparr>)] \<and>
   entries (handle_close 0 (handle_close 0 (closeModal ''nnn''
       (snd (handle_open 0 None (snd (handle_open 0 None example_world)))))))
     = [(''u'', \<lparr>ident = ''u'', componentId = ''n'', props = Some [(''title'', 1)]\<rparr>)] \<and>
   entries (handle_close 0 (closeModal ''nn''
       (snd (handle_open 0 None (snd (handle_open 0 None example_world))))))
     = [(''u'', \<lparr>ident = ''u'', componentId = ''n'', props = Some [(''title'', 1)]\<rparr>)] \<and>
   ids (handles (handle_close 0 (closeModal ''nn''
       (snd (handle_open 0 None (snd (handle_open 0 None example_world)))))) ! 0) = [''nn'']"
proof -
  let ?s = "snd (handle_open 0 None (snd (handle_open 0 None example_world)))"
  have hyp: "wf_world ?s" "0 < length (handles ?s)"
    by (simp_all add: two_opened)
  have st: "ids (handles ?s ! 0) = [''nn''] @ [''nnn'']"
    by (simp add: two_opened)
  have e: "entries (closeModal ''nnn'' ?s) =
      [(''u'', \<lparr>ident = ''u'', componentId = ''n'', props = Some [(''title'', 1)]\<rparr>),
        (''nn'', \<lparr>ident = ''nn'', componentId = ''n'', props = None\<rparr>)]"
    "entries (closeModal ''nn'' ?s) =
      [(''u'', \<lparr>ident = ''u'', componentId = ''n'', props = Some [(''title'', 1)]\<rparr>),
        (''nnn'', \<lparr>ident = ''nnn'', componentId = ''n'', props = None\<rparr>)]"
    using hyp(1) by (simp_all add: closeModal_install two_opened)
  note t1 = stale_stack [OF hyp, of "''nnn''" "[''nn'']" "''nnn''"]
  note t2 = stale_stack [OF hyp, of "''nn''" "[''nn'']" "''nnn''"]
  have a: "entries (handle_close 0 (closeModal ''nnn'' ?s)) = entries (closeModal ''nnn'' ?s)"
    "entries (handle_close 0 (handle_close 0 (closeModal ''nnn'' ?s)))
       = AList.delete ''nn'' (entries (closeModal ''nnn'' ?s))"
    using t1 st by simp_all
  have b: "entries (handle_close 0 (closeModal ''nn'' ?s))
       = AList.delete ''nnn'' (entries (closeModal ''nn'' ?s))"
    "ids (handles (handle_close 0 (closeModal ''nn'' ?s)) ! 0) = [''nn'']"
    using t2 st by simp_all
  show ?thesis using hyp st a b e by simp
qed

section \<open>The registry\<close>

text \<open>
  Claim C3: registering the same component twice returns the same id both times, the two
  registry maps stay consistent, and the returned id resolves back to the component
  (\<open>componentIdMap.get\<close> of the id is the component). \<open>registerComponent\<close> is a
  total function returning a plain id: it has no error result. The registry is taken
  consistent beforehand, and \<open>nanoid\<close> is asked for its contract: the id it would
  return is non-empty and not yet in use. The second call changes nothing at all.
\<close>

theorem register_idempotent:
  assumes "registry_consistent s"
    and "nanoid_seq s (nanoid_calls s) \<noteq> []"
    and "nanoid_seq s (nanoid_calls s) \<notin> dom (componentIdMap s)"
  shows "case registerComponent c s of (i1, s1) \<Rightarrow>
           case registerComponent c s1 of (i2, s2) \<Rightarrow>
             i1 = i2 \<and> s2 = s1 \<and>
             componentRegistry s1 c = Some i1 \<and> componentIdMap s1 i1 = Some c \<and>
             registry_consistent s1"
proof (cases "componentRegistry s c")
  case None
  let ?n = "nanoid_seq s (nanoid_calls s)"
  let ?s1 = "s\<lparr>nanoid_calls := Suc (nanoid_calls s),
        componentRegistry := (componentRegistry s)(c \<mapsto> ?n),
        componentIdMap := (componentIdMap s)(?n \<mapsto> c)\<rparr>"
  have r1: "registerComponent c s = (?n, ?s1)" using None by (rule register_new)
  have "componentRegistry ?s1 c = Some ?n" by simp
  then have r2: "registerComponent c ?s1 = (?n, ?s1)"
    using assms(2) by (rule register_known)
  have "componentIdMap s ?n = None" using assms(3) by (simp add: domIff)
  then have c1: "registry_consistent ?s1"
    using assms(1) None assms(2) by (intro consistent_extend)
  have "componentRegistry ?s1 c = Some ?n \<and> componentIdMap ?s1 ?n = Some c" by simp
  then show ?thesis unfolding r1 prod.case r2 using c1 by blast
next
  case (Some i)
  then have i: "i \<noteq> []" "componentIdMap s i = Some c"
    using assms(1) unfolding registry_consistent_def by blast+
  have r: "registerComponent c s = (i, s)" using Some i(1) by (rule register_known)
  show ?thesis unfolding r prod.case using Some i(2) assms(1) by blast
qed

theorem register_idempotent_witness:
  "registry_consistent example_world \<and>
   nanoid_seq example_world (nanoid_calls example_world) \<noteq> [] \<and>
   nanoid_seq example_world (nanoid_calls example_world) \<notin> dom (componentIdMap example_world) \<and>
   fst (registerComponent 8 example_world) = ''nn'' \<and>
   fst (registerComponent 8 (snd (registerComponent 8 example_world))) = ''nn'' \<and>
   componentIdMap (snd (registerComponent 8 example_world)) ''nn'' = Some 8 \<and>
   componentIdMap (snd (registerComponent 8 example_world)) ''n'' = Some 7"
proof -
  have m: "componentRegistry example_world = [7 \<mapsto> ''n'']"
    "componentIdMap example_world = [''n'' \<mapsto> 7]"
    by (simp_all add: example_world_def)
  have h1: "registry_consistent example_world"
    unfolding registry_consistent_def m by (simp split: if_splits)
  have h2: "nanoid_seq example_world (nanoid_calls example_world) \<noteq> []"
    by (simp add: example_world_facts)
  have h3: "nanoid_seq example_world (nanoid_calls example_world)
      \<notin> dom (componentIdMap example_world)"
    unfolding m by (simp add: example_world_facts)
  have f: "fst (registerComponent 8 example_world) = ''nn''"
    "componentIdMap (snd (registerComponent 8 example_world)) ''n'' = Some 7"
    by (simp_all add: register_new m example_world_facts)
  show ?thesis
    using register_idempotent [OF h1 h2 h3, of 8] h1 h2 h3 f
    by (auto simp: split_beta)
qed

section \<open>Rendering\<close>






section \<open>Teardown\<close>

text \<open>
  Claim C8: the cleanup of the provider empties the store. This holds after any run of
  the module from its initial state (any calls of \<open>createModal\<close>, of handles'
  \<open>open\<close> and \<open>close\<close>, of the store's operations, renders and earlier
  unmounts), and more generally in any world without dangling references, whichever
  handle opened which instance.
\<close>

theorem teardown_clears_all:
  "entries (ModalProvider_unmount (fst (run acts gen) :: ('c, 'v) world)) = [] \<and>
   (wf_world (s :: ('c, 'v) world) \<longrightarrow>
      entries (ModalProvider_unmount s) = [] \<and> length (entries (ModalProvider_unmount s)) = 0)"
  by (simp add: unmount_install run_wf)

theorem teardown_clears_all_witness:
  "(let W = snd (handle_open (Suc 0) None (snd (handle_open 0 None example_world))) in
     wf_world W \<and> length (entries W) = 3 \<and>
     ids (handles W ! 0) = [''nn''] \<and> ids (handles W ! Suc 0) = [''nnn''] \<and>
     entries (ModalProvider_unmount W) = [])"
proof -
  let ?W = "snd (handle_open (Suc 0) None (snd (handle_open 0 None example_world)))"
  have hyp: "wf_world ?W" by (simp add: both_opened)
  show ?thesis
    using teardown_clears_all [of "[]" example_ids ?W] hyp
    unfolding Let_def by (simp add: both_opened)
qed

end
